theory Spec2Isabelle
  imports Complex_Main "HOL-Library.Sublist"
begin

section \<open>The playback queue engine of src/cogs/music.py\<close>

text \<open>
  The development embeds \<^verbatim>\<open>MusicPlayer\<close> (lines 54-158) and \<^verbatim>\<open>Music.get_player\<close>
  (lines 290-295). The coroutine \<^verbatim>\<open>player_loop\<close> runs on a cooperative scheduler, so it
  is modelled as a small-step machine whose control points are the places where the
  coroutine can be between two statements of interest; other callers run only while
  the coroutine is suspended at an \<^verbatim>\<open>await\<close>.
\<close>

subsection \<open>Data\<close>

text \<open>The dataclass \<^verbatim>\<open>Track\<close> (lines 45-51); the requester is kept as a member id.\<close>

record Track =
  title :: string
  stream_url :: string
  webpage_url :: string
  duration :: "int option"
  requester :: nat

text \<open>
  A Python object of class \<^verbatim>\<open>Track\<close>: its identity and its (never mutated) fields.
  The deque and \<^verbatim>\<open>current\<close> hold references to such objects. Equality of the pair is
  object identity together with field equality; the generated \<^verbatim>\<open>__eq__\<close> of the dataclass
  compares the second component only.
\<close>

type_synonym track_ref = "nat \<times> Track"

datatype py_exception = CancelledError | ClientException | ValueError | OSError | RuntimeError

text \<open>The audio source built at lines 115-123.\<close>

record AudioSource =
  src_url :: string
  executable :: string
  before_options :: string
  options :: string
  src_volume :: real

text \<open>
  \<^verbatim>\<open>discord.VoiceClient\<close> is a class of the discord.py library. The model keeps the part of
  its state that the methods used by this file read and write: whether the transport is
  connected, the audio player it holds (with the source it streams), and whether that
  player is paused.
\<close>

record VoiceClient =
  connected :: bool
  player :: "AudioSource option"
  paused :: bool

text \<open>The arguments of \<^verbatim>\<open>monitor.record_bot_task\<close> (lines 99-107, 135-143), without the
  measured durations.\<close>

datatype metric =
    QueueWait int nat
  | TrackPlay int string "int option"

text \<open>
  The coroutine \<^verbatim>\<open>player_loop\<close>: where it stands and the locals that are live there.
  \<open>Created\<close>: scheduled by \<^verbatim>\<open>create_task\<close> (line 66), not yet run.
  \<open>LoopTop\<close>: before line 94. \<open>Dequeue\<close>: at line 155. \<open>AwaitQueue\<close>: suspended at
  line 158. \<open>HaveTrack\<close>: \<^verbatim>\<open>_wait_for_track\<close> has returned, before line 97.
  \<open>Backoff d\<close>: suspended in \<^verbatim>\<open>asyncio.sleep(d)\<close>, line 110. \<open>AwaitNext\<close>: suspended at
  line 132. \<open>Finish\<close>: \<^verbatim>\<open>next.wait()\<close> has returned, before line 133. \<open>Returned\<close>: the
  coroutine has returned. \<open>Raised e\<close>: the exception \<open>e\<close> has left the coroutine.
\<close>

datatype task =
    Created
  | LoopTop
  | Dequeue
  | AwaitQueue
  | HaveTrack track_ref
  | Backoff nat
  | AwaitNext track_ref AudioSource
  | Finish track_ref AudioSource
  | Returned
  | Raised py_exception

text \<open>
  What the engine did to its collaborators, in order: the objects handed to
  \<^verbatim>\<open>add_track\<close>, the metrics recorded, the sources whose streaming \<^verbatim>\<open>voice.play\<close> began,
  the calls of \<^verbatim>\<open>voice.stop\<close> by \<^verbatim>\<open>skip_current\<close>, and the calls of \<^verbatim>\<open>source.cleanup\<close>.
  No operation reads it.
\<close>

datatype effect =
    Enqueued track_ref
  | Recorded metric
  | Started track_ref AudioSource
  | Stopped
  | Cleanup AudioSource

text \<open>
  \<^verbatim>\<open>MusicPlayer\<close> (lines 55-66). \<open>next_ev\<close> is the event \<^verbatim>\<open>self.next\<close>; an \<^verbatim>\<open>asyncio.Event\<close>
  is its flag. \<open>monitor\<close> says whether \<^verbatim>\<open>bot.health_monitor\<close> exists. The last three
  fields are the surroundings: \<open>callbacks\<close> counts the calls of \<^verbatim>\<open>self.next.set\<close> that
  \<^verbatim>\<open>after_play\<close> (line 128) has scheduled on the event loop and that have not run yet;
  \<open>objects\<close> counts the \<^verbatim>\<open>Track\<close> objects constructed for this player so far; \<open>trace\<close> is
  the list of effects.
\<close>

record MusicPlayer =
  guild_id :: int
  ffmpeg_path :: string
  pending :: "track_ref list"
  queue_event :: bool
  next_ev :: bool
  current :: "track_ref option"
  voice :: "VoiceClient option"
  volume :: real
  monitor :: bool
  loop_task :: task
  callbacks :: nat
  objects :: nat
  trace :: "effect list"

text \<open>What the fallible calls of one step of the coroutine do: building the source
  (lines 115-123), \<^verbatim>\<open>voice.play\<close> for a reason outside the voice client's modelled state
  (line 131), and \<^verbatim>\<open>source.cleanup\<close> (line 145).\<close>

record outcome =
  source_exc :: "py_exception option"
  play_exc :: "py_exception option"
  cleanup_exc :: "py_exception option"

datatype voice_op = VStop | VPause | VResume | VDisconnect | VConnect | VEnded

datatype event =
    Enqueue Track
  | Skip
  | Clear
  | SetVoice VoiceClient
  | Cancel
  | External voice_op
  | Callback
  | Loop outcome

text \<open>The cog \<^verbatim>\<open>Music\<close> (lines 162-167), as far as \<^verbatim>\<open>get_player\<close> uses it. \<open>instances\<close>
  are the \<^verbatim>\<open>MusicPlayer\<close> objects constructed so far, in order of construction; a
  reference to one is its position. \<open>players\<close> is the dictionary.\<close>

record Music =
  players :: "int \<rightharpoonup> nat"
  instances :: "MusicPlayer list"
  health_monitor :: bool
  config_ffmpeg_path :: string

subsection \<open>The voice client's methods\<close>

definition is_connected :: "VoiceClient \<Rightarrow> bool" where
  "is_connected v = connected v"

definition is_playing :: "VoiceClient \<Rightarrow> bool" where
  "is_playing v = (player v \<noteq> None \<and> \<not> paused v)"

definition is_paused :: "VoiceClient \<Rightarrow> bool" where
  "is_paused v = (player v \<noteq> None \<and> paused v)"

definition stop :: "VoiceClient \<Rightarrow> VoiceClient" where
  "stop v = v\<lparr>player := None, paused := False\<rparr>"

definition pause :: "VoiceClient \<Rightarrow> VoiceClient" where
  "pause v = (if player v \<noteq> None then v\<lparr>paused := True\<rparr> else v)"

definition resume :: "VoiceClient \<Rightarrow> VoiceClient" where
  "resume v = (if player v \<noteq> None then v\<lparr>paused := False\<rparr> else v)"

definition disconnect :: "VoiceClient \<Rightarrow> VoiceClient" where
  "disconnect v = (stop v)\<lparr>connected := False\<rparr>"

text \<open>\<^verbatim>\<open>play\<close> raises \<^verbatim>\<open>ClientException\<close> when the client is not connected or is already
  playing.\<close>

definition play :: "VoiceClient \<Rightarrow> AudioSource \<Rightarrow> py_exception + VoiceClient" where
  "play v src =
     (if \<not> is_connected v then Inl ClientException
      else if is_playing v then Inl ClientException
      else Inr (v\<lparr>player := Some src, paused := False\<rparr>))"

text \<open>The number of audio players that end when the client is stopped; each runs its
  \<^verbatim>\<open>after\<close> callback once.\<close>

definition ended :: "VoiceClient \<Rightarrow> nat" where
  "ended v = (if player v = None then 0 else 1)"

subsection \<open>The methods of MusicPlayer\<close>

definition FFMPEG_BEFORE_OPTS :: string where
  "FFMPEG_BEFORE_OPTS = ''-reconnect 1 -reconnect_streamed 1 -reconnect_delay_max 5''"

definition new_player :: "bool \<Rightarrow> int \<Rightarrow> string \<Rightarrow> MusicPlayer" where
  "new_player mon gid path =
     \<lparr>guild_id = gid, ffmpeg_path = path, pending = [], queue_event = False,
      next_ev = False, current = None, voice = None, volume = 0.5, monitor = mon,
      loop_task = Created, callbacks = 0, objects = 0, trace = []\<rparr>"

definition set_voice :: "VoiceClient \<Rightarrow> MusicPlayer \<Rightarrow> MusicPlayer" where
  "set_voice v s = s\<lparr>voice := Some v\<rparr>"

definition skip_current :: "MusicPlayer \<Rightarrow> bool \<times> MusicPlayer" where
  "skip_current s =
     (case voice s of
        None \<Rightarrow> (False, s)
      | Some v \<Rightarrow>
          if is_playing v then
            (True, s\<lparr>voice := Some (stop v), callbacks := callbacks s + ended v,
                     next_ev := True, trace := trace s @ [Stopped]\<rparr>)
          else (False, s))"

definition add_track :: "track_ref \<Rightarrow> MusicPlayer \<Rightarrow> MusicPlayer" where
  "add_track t s = s\<lparr>pending := pending s @ [t], queue_event := True\<rparr>"

definition clear_queue :: "MusicPlayer \<Rightarrow> MusicPlayer" where
  "clear_queue s = s\<lparr>pending := []\<rparr>"

definition queue_items :: "MusicPlayer \<Rightarrow> track_ref list" where
  "queue_items s = pending s"

definition queue_size :: "MusicPlayer \<Rightarrow> nat" where
  "queue_size s = length (pending s)"

definition record_bot_task :: "metric \<Rightarrow> MusicPlayer \<Rightarrow> MusicPlayer" where
  "record_bot_task m s = (if monitor s then s\<lparr>trace := trace s @ [Recorded m]\<rparr> else s)"

subsection \<open>player_loop\<close>

text \<open>The handler at lines 150-151 catches \<^verbatim>\<open>CancelledError\<close> and nothing else.\<close>

definition propagate :: "py_exception \<Rightarrow> task" where
  "propagate e = (if e = CancelledError then Returned else Raised e)"

definition make_source :: "MusicPlayer \<Rightarrow> Track \<Rightarrow> AudioSource" where
  "make_source s t =
     \<lparr>src_url = stream_url t, executable = ffmpeg_path s,
      before_options = FFMPEG_BEFORE_OPTS, options = ''-vn'', src_volume = volume s\<rparr>"

text \<open>Lines 113-132. \<^verbatim>\<open>await self.next.wait()\<close> does not suspend when the flag is set.\<close>

definition start_track :: "outcome \<Rightarrow> track_ref \<Rightarrow> VoiceClient \<Rightarrow> MusicPlayer \<Rightarrow> MusicPlayer" where
  "start_track env t v s =
     (let s1 = s\<lparr>current := Some t\<rparr> in
      case source_exc env of
        Some e \<Rightarrow> s1\<lparr>loop_task := propagate e\<rparr>
      | None \<Rightarrow>
          (let src = make_source s1 (snd t) in
           case play v src of
             Inl e \<Rightarrow> s1\<lparr>loop_task := propagate e\<rparr>
           | Inr v' \<Rightarrow>
               (case play_exc env of
                  Some e \<Rightarrow> s1\<lparr>loop_task := propagate e\<rparr>
                | None \<Rightarrow>
                    s1\<lparr>voice := Some v', trace := trace s1 @ [Started t src],
                       loop_task := (if next_ev s1 then Finish t src else AwaitNext t src)\<rparr>)))"

text \<open>Lines 97-132, entered with the track that \<^verbatim>\<open>_wait_for_track\<close> returned.\<close>

definition have_track :: "outcome \<Rightarrow> track_ref \<Rightarrow> MusicPlayer \<Rightarrow> MusicPlayer" where
  "have_track env t s =
     (let s1 = record_bot_task (QueueWait (guild_id s) (queue_size s)) s in
      case voice s1 of
        None \<Rightarrow> s1\<lparr>pending := t # pending s1, loop_task := Backoff 1\<rparr>
      | Some v \<Rightarrow>
          if \<not> is_connected v then s1\<lparr>pending := t # pending s1, loop_task := Backoff 1\<rparr>
          else start_track env t v s1)"

text \<open>Lines 133-149.\<close>

definition finish :: "outcome \<Rightarrow> track_ref \<Rightarrow> AudioSource \<Rightarrow> MusicPlayer \<Rightarrow> MusicPlayer" where
  "finish env t src s =
     (let s1 = record_bot_task (TrackPlay (guild_id s) (title (snd t)) (duration (snd t))) s;
          s2 = s1\<lparr>trace := trace s1 @ [Cleanup src]\<rparr> in
      case cleanup_exc env of
        None \<Rightarrow> s2\<lparr>current := None, loop_task := LoopTop\<rparr>
      | Some e \<Rightarrow>
          if e = ValueError \<or> e = OSError then s2\<lparr>current := None, loop_task := LoopTop\<rparr>
          else s2\<lparr>loop_task := propagate e\<rparr>)"

text \<open>One step of the coroutine; \<open>None\<close> when it cannot move (it waits for an event whose
  flag is clear, or it has ended).\<close>

definition loop_step :: "outcome \<Rightarrow> MusicPlayer \<Rightarrow> MusicPlayer option" where
  "loop_step env s =
     (case loop_task s of
        Created \<Rightarrow> Some (s\<lparr>loop_task := LoopTop\<rparr>)
      | LoopTop \<Rightarrow> Some (s\<lparr>next_ev := False, loop_task := Dequeue\<rparr>)
      | Dequeue \<Rightarrow>
          (case pending s of
             t # ts \<Rightarrow> Some (s\<lparr>pending := ts, loop_task := HaveTrack t\<rparr>)
           | [] \<Rightarrow> Some (s\<lparr>queue_event := False, loop_task := AwaitQueue\<rparr>))
      | AwaitQueue \<Rightarrow> if queue_event s then Some (s\<lparr>loop_task := Dequeue\<rparr>) else None
      | HaveTrack t \<Rightarrow> Some (have_track env t s)
      | Backoff d \<Rightarrow> Some (s\<lparr>loop_task := LoopTop\<rparr>)
      | AwaitNext t src \<Rightarrow> if next_ev s then Some (s\<lparr>loop_task := Finish t src\<rparr>) else None
      | Finish t src \<Rightarrow> Some (finish env t src s)
      | Returned \<Rightarrow> None
      | Raised e \<Rightarrow> None)"

text \<open>The coroutine is suspended at an \<^verbatim>\<open>await\<close>, not yet started, or over.\<close>

fun suspended :: "task \<Rightarrow> bool" where
  "suspended Created = True"
| "suspended AwaitQueue = True"
| "suspended (Backoff d) = True"
| "suspended (AwaitNext t src) = True"
| "suspended Returned = True"
| "suspended (Raised e) = True"
| "suspended LoopTop = False"
| "suspended Dequeue = False"
| "suspended (HaveTrack t) = False"
| "suspended (Finish t src) = False"

text \<open>\<^verbatim>\<open>loop_task.cancel()\<close>: \<^verbatim>\<open>CancelledError\<close> is raised at the \<^verbatim>\<open>await\<close> where the
  coroutine is suspended, inside the \<^verbatim>\<open>try\<close> of line 92; a coroutine that has not started
  is outside it; a task that is over is left as it is.\<close>

definition cancel :: "MusicPlayer \<Rightarrow> MusicPlayer" where
  "cancel s =
     (case loop_task s of
        AwaitQueue \<Rightarrow> s\<lparr>loop_task := propagate CancelledError\<rparr>
      | Backoff d \<Rightarrow> s\<lparr>loop_task := propagate CancelledError\<rparr>
      | AwaitNext t src \<Rightarrow> s\<lparr>loop_task := propagate CancelledError\<rparr>
      | Created \<Rightarrow> s\<lparr>loop_task := Raised CancelledError\<rparr>
      | _ \<Rightarrow> s)"

subsection \<open>The callers and the surroundings\<close>

text \<open>Lines 484-491 and 415-420: \<^verbatim>\<open>create_track\<close> constructs a new \<^verbatim>\<open>Track\<close> object, which
  is handed to \<^verbatim>\<open>add_track\<close>.\<close>

definition enqueue :: "Track \<Rightarrow> MusicPlayer \<Rightarrow> MusicPlayer" where
  "enqueue tr s =
     add_track (objects s, tr)
       (s\<lparr>objects := Suc (objects s), trace := trace s @ [Enqueued (objects s, tr)]\<rparr>)"

text \<open>What happens to the voice client from outside the engine: the commands
  \<^verbatim>\<open>stop\<close>, \<^verbatim>\<open>pause\<close>, \<^verbatim>\<open>resume\<close> and \<^verbatim>\<open>leave\<close>, a reconnection, and the end of the source.\<close>

definition external :: "voice_op \<Rightarrow> VoiceClient \<Rightarrow> MusicPlayer \<Rightarrow> MusicPlayer" where
  "external op v s =
     (case op of
        VStop \<Rightarrow> s\<lparr>voice := Some (stop v), callbacks := callbacks s + ended v\<rparr>
      | VPause \<Rightarrow> s\<lparr>voice := Some (pause v)\<rparr>
      | VResume \<Rightarrow> s\<lparr>voice := Some (resume v)\<rparr>
      | VDisconnect \<Rightarrow> s\<lparr>voice := Some (disconnect v), callbacks := callbacks s + ended v\<rparr>
      | VConnect \<Rightarrow> s\<lparr>voice := Some (v\<lparr>connected := True\<rparr>)\<rparr>
      | VEnded \<Rightarrow> s\<lparr>voice := Some (stop v), callbacks := callbacks s + ended v\<rparr>)"

text \<open>One transition of a session. The end of a source happens in the audio thread, at
  any time while the client plays; everything else runs on the event loop, hence only
  while the coroutine is suspended.\<close>

definition step :: "event \<Rightarrow> MusicPlayer \<Rightarrow> MusicPlayer option" where
  "step e s =
     (case e of
        Loop env \<Rightarrow> loop_step env s
      | External VEnded \<Rightarrow>
          (case voice s of
             None \<Rightarrow> None
           | Some v \<Rightarrow> if is_playing v then Some (external VEnded v s) else None)
      | External op \<Rightarrow>
          (if suspended (loop_task s)
           then (case voice s of None \<Rightarrow> Some s | Some v \<Rightarrow> Some (external op v s))
           else None)
      | Enqueue tr \<Rightarrow> if suspended (loop_task s) then Some (enqueue tr s) else None
      | Skip \<Rightarrow> if suspended (loop_task s) then Some (snd (skip_current s)) else None
      | Clear \<Rightarrow> if suspended (loop_task s) then Some (clear_queue s) else None
      | SetVoice v \<Rightarrow> if suspended (loop_task s) then Some (set_voice v s) else None
      | Cancel \<Rightarrow> if suspended (loop_task s) then Some (cancel s) else None
      | Callback \<Rightarrow>
          if suspended (loop_task s) \<and> 0 < callbacks s
          then Some (s\<lparr>next_ev := True, callbacks := callbacks s - 1\<rparr>)
          else None)"

fun exec :: "event list \<Rightarrow> MusicPlayer \<Rightarrow> MusicPlayer option" where
  "exec [] s = Some s"
| "exec (e # es) s = (case step e s of None \<Rightarrow> None | Some s' \<Rightarrow> exec es s')"

inductive reachable :: "MusicPlayer \<Rightarrow> bool" where
  init: "reachable (new_player mon gid path)"
| next_state: "reachable s \<Longrightarrow> step e s = Some s' \<Longrightarrow> reachable s'"

subsection \<open>Music.get_player\<close>

text \<open>Lines 290-295. A \<^verbatim>\<open>MusicPlayer\<close> object is truthy, so \<^verbatim>\<open>not player\<close> holds exactly when
  the dictionary has no entry.\<close>

definition get_player :: "int \<Rightarrow> Music \<Rightarrow> nat \<times> Music" where
  "get_player gid c =
     (case players c gid of
        Some r \<Rightarrow> (r, c)
      | None \<Rightarrow>
          (let r = length (instances c) in
           (r, c\<lparr>instances := instances c @ [new_player (health_monitor c) gid (config_ffmpeg_path c)],
                  players := (players c)(gid \<mapsto> r)\<rparr>)))"

subsection \<open>Notions used by the properties\<close>

text \<open>The condition of line 72: a voice client is bound and it plays.\<close>

definition actively_streaming :: "MusicPlayer \<Rightarrow> bool" where
  "actively_streaming s = (case voice s of None \<Rightarrow> False | Some v \<Rightarrow> is_playing v)"

text \<open>The condition of line 108: no voice client, or one that is not connected.\<close>

definition no_transport :: "MusicPlayer \<Rightarrow> bool" where
  "no_transport s = (case voice s of None \<Rightarrow> True | Some v \<Rightarrow> \<not> is_connected v)"

text \<open>The tracks whose streaming began, and the tracks handed to \<^verbatim>\<open>add_track\<close>, in order.\<close>

fun started :: "effect list \<Rightarrow> track_ref list" where
  "started [] = []"
| "started (Started t src # es) = t # started es"
| "started (e # es) = started es"

fun enqueued :: "effect list \<Rightarrow> track_ref list" where
  "enqueued [] = []"
| "enqueued (Enqueued t # es) = t # enqueued es"
| "enqueued (e # es) = enqueued es"

text \<open>The coroutine is over.\<close>

fun over :: "task \<Rightarrow> bool" where
  "over Returned = True"
| "over (Raised e) = True"
| "over p = False"


text \<open>The objects in \<open>pending\<close> are pairwise different, all were constructed before, and
  neither \<open>current\<close> nor the track the coroutine has just dequeued is among them.\<close>

definition fresh_ids :: "MusicPlayer \<Rightarrow> bool" where
  "fresh_ids s =
     (distinct (map fst (pending s))
      \<and> (\<forall>p \<in> set (pending s). fst p < objects s)
      \<and> (\<forall>c. current s = Some c \<longrightarrow> fst c < objects s \<and> fst c \<notin> fst ` set (pending s))
      \<and> (\<forall>t. loop_task s = HaveTrack t \<longrightarrow> fst t < objects s \<and> fst t \<notin> fst ` set (pending s)
            \<and> (\<forall>c. current s = Some c \<longrightarrow> fst c \<noteq> fst t)))"

subsection \<open>A session used as the running example\<close>

definition song_A :: Track where
  "song_A = \<lparr>title = ''Song A'', stream_url = ''https://cdn.example/a'',
     webpage_url = ''https://youtube.com/watch?v=a'', duration = Some 180, requester = 7\<rparr>"

definition song_B :: Track where
  "song_B = \<lparr>title = ''Song B'', stream_url = ''https://cdn.example/b'',
     webpage_url = ''https://youtube.com/watch?v=b'', duration = None, requester = 8\<rparr>"

definition song_C :: Track where
  "song_C = \<lparr>title = ''Song C'', stream_url = ''https://cdn.example/c'',
     webpage_url = ''https://youtube.com/watch?v=c'', duration = Some 95, requester = 7\<rparr>"

definition idle_voice :: VoiceClient where
  "idle_voice = \<lparr>connected = True, player = None, paused = False\<rparr>"

definition ok :: outcome where
  "ok = \<lparr>source_exc = None, play_exc = None, cleanup_exc = None\<rparr>"

definition fresh :: MusicPlayer where
  "fresh = new_player True 42 ''ffmpeg''"

definition source_A :: AudioSource where
  "source_A = make_source fresh song_A"

text \<open>Song A plays, Song B waits.\<close>

definition playing_A :: MusicPlayer where
  "playing_A = fresh\<lparr>pending := [(1, song_B)], queue_event := True, current := Some (0, song_A),
     voice := Some (idle_voice\<lparr>player := Some source_A\<rparr>),
     loop_task := AwaitNext (0, song_A) source_A, objects := 2,
     trace := [Enqueued (0, song_A), Enqueued (1, song_B), Recorded (QueueWait 42 1),
               Started (0, song_A) source_A]\<rparr>"

text \<open>The exception that lines 115-131 raise, if any: from building the source, from
  \<^verbatim>\<open>voice.play\<close> on the state of the client, or from \<^verbatim>\<open>voice.play\<close> for another reason.\<close>

definition start_failure :: "outcome \<Rightarrow> VoiceClient \<Rightarrow> AudioSource \<Rightarrow> py_exception option" where
  "start_failure env v src =
     (case source_exc env of
        Some e \<Rightarrow> Some e
      | None \<Rightarrow> (case play v src of Inl e \<Rightarrow> Some e | Inr v' \<Rightarrow> play_exc env))"

text \<open>Every entry of the dictionary refers to a constructed instance, and that instance
  was made for the session of the entry.\<close>

definition registry_ok :: "Music \<Rightarrow> bool" where
  "registry_ok c =
     (\<forall>g r. players c g = Some r \<longrightarrow> r < length (instances c) \<and> guild_id (instances c ! r) = g)"

text \<open>The cog after \<^verbatim>\<open>__init__\<close> (line 165).\<close>

definition empty_cog :: Music where
  "empty_cog = \<lparr>players = Map.empty, instances = [], health_monitor = True,
     config_ffmpeg_path = ''ffmpeg''\<rparr>"

text \<open>The executable is missing: building the source raises.\<close>

definition no_ffmpeg :: outcome where
  "no_ffmpeg = ok\<lparr>source_exc := Some ClientException\<rparr>"

text \<open>The process behind the source is gone already: \<^verbatim>\<open>cleanup\<close> raises.\<close>

definition already_released :: outcome where
  "already_released = ok\<lparr>cleanup_exc := Some ValueError\<rparr>"

text \<open>Song A was dequeued and could not be started; Song B waits.\<close>

definition crashed_A :: MusicPlayer where
  "crashed_A = fresh\<lparr>pending := [(1, song_B)], queue_event := True, current := Some (0, song_A),
     voice := Some idle_voice, loop_task := Raised ClientException, objects := 2,
     trace := [Enqueued (0, song_A), Enqueued (1, song_B), Recorded (QueueWait 42 1)]\<rparr>"

text \<open>Song A was skipped; the coroutine is about to clean up.\<close>

definition finishing_A :: MusicPlayer where
  "finishing_A = playing_A\<lparr>voice := Some idle_voice, next_ev := True, callbacks := 1,
     loop_task := Finish (0, song_A) source_A, trace := trace playing_A @ [Stopped]\<rparr>"

text \<open>The events that give the engine a connected voice client: \<^verbatim>\<open>set_voice\<close>, and the
  client's own reconnection.\<close>

fun binds :: "event \<Rightarrow> bool" where
  "binds (SetVoice v) = True"
| "binds (External VConnect) = True"
| "binds e = False"

text \<open>Song A was requested before any voice client was bound; the coroutine is about to
  dequeue it.\<close>

definition waiting_A :: MusicPlayer where
  "waiting_A = fresh\<lparr>pending := [(0, song_A)], queue_event := True, loop_task := Dequeue,
     objects := 1, trace := [Enqueued (0, song_A)]\<rparr>"

text \<open>The locators of the sources whose streaming began, in order.\<close>

fun started_urls :: "effect list \<Rightarrow> string list" where
  "started_urls [] = []"
| "started_urls (Started t src # es) = src_url src # started_urls es"
| "started_urls (e # es) = started_urls es"





section \<open>Properties\<close>

subsection \<open>Basic facts\<close>

lemma started_append [simp]: "started (xs @ ys) = started xs @ started ys"
  by (induction xs rule: started.induct) auto

lemma enqueued_append [simp]: "enqueued (xs @ ys) = enqueued xs @ enqueued ys"
  by (induction xs rule: enqueued.induct) auto

lemma record_bot_task_fields [simp]:
  "pending (record_bot_task m s) = pending s"
  "current (record_bot_task m s) = current s"
  "loop_task (record_bot_task m s) = loop_task s"
  "objects (record_bot_task m s) = objects s"
  "voice (record_bot_task m s) = voice s"
  "next_ev (record_bot_task m s) = next_ev s"
  "queue_event (record_bot_task m s) = queue_event s"
  "callbacks (record_bot_task m s) = callbacks s"
  "started (trace (record_bot_task m s)) = started (trace s)"
  "enqueued (trace (record_bot_task m s)) = enqueued (trace s)"
  by (simp_all add: record_bot_task_def)

lemma start_track_fields:
  "pending (start_track env t v s) = pending s"
  "current (start_track env t v s) = Some t"
  "objects (start_track env t v s) = objects s"
  "loop_task (start_track env t v s) \<noteq> HaveTrack t'"
  "enqueued (trace (start_track env t v s)) = enqueued (trace s)"
  by (simp_all add: start_track_def Let_def propagate_def split: option.split sum.split)

lemma external_fields [simp]:
  "pending (external op v s) = pending s"
  "current (external op v s) = current s"
  "loop_task (external op v s) = loop_task s"
  "objects (external op v s) = objects s"
  "trace (external op v s) = trace s"
  by (cases op; simp add: external_def)+

lemma skip_current_fields [simp]:
  "pending (snd (skip_current s)) = pending s"
  "current (snd (skip_current s)) = current s"
  "loop_task (snd (skip_current s)) = loop_task s"
  "objects (snd (skip_current s)) = objects s"
  "started (trace (snd (skip_current s))) = started (trace s)"
  "enqueued (trace (snd (skip_current s))) = enqueued (trace s)"
  by (simp_all add: skip_current_def split: option.split)

lemma cancel_fields [simp]:
  "pending (cancel s) = pending s"
  "current (cancel s) = current s"
  "objects (cancel s) = objects s"
  "trace (cancel s) = trace s"
  "voice (cancel s) = voice s"
  by (simp_all add: cancel_def split: task.split)

lemma cancel_task:
  "suspended (loop_task s) \<Longrightarrow> loop_task (cancel s) \<noteq> HaveTrack t"
  "suspended (loop_task s) \<Longrightarrow> loop_task (cancel s) = loop_task s \<or> over (loop_task (cancel s))"
  by (cases "loop_task s"; simp add: cancel_def propagate_def)+

lemma suspended_not_HaveTrack: "suspended p \<Longrightarrow> p \<noteq> HaveTrack t"
  by (cases p) simp_all

text \<open>The transitions of a session, one case for each kind of event.\<close>

lemma step_elim [consumes 1, case_names Loop External NoVoice Enqueue Skip Clear SetVoice Cancel Callback]:
  assumes "step e s = Some s'"
  obtains
    (Loop) env where "e = Loop env" "loop_step env s = Some s'"
  | (External) op v where "e = External op" "voice s = Some v" "s' = external op v s"
  | (NoVoice) op where "e = External op" "voice s = None" "s' = s"
  | (Enqueue) tr where "e = Enqueue tr" "suspended (loop_task s)" "s' = enqueue tr s"
  | (Skip) "e = Skip" "suspended (loop_task s)" "s' = snd (skip_current s)"
  | (Clear) "e = Clear" "suspended (loop_task s)" "s' = clear_queue s"
  | (SetVoice) v where "e = SetVoice v" "suspended (loop_task s)" "s' = set_voice v s"
  | (Cancel) "e = Cancel" "suspended (loop_task s)" "s' = cancel s"
  | (Callback) "e = Callback" "suspended (loop_task s)" "0 < callbacks s"
      "s' = s\<lparr>next_ev := True, callbacks := callbacks s - 1\<rparr>"
proof (cases e)
  case (External op)
  with assms that(2,3) show ?thesis
    by (cases op) (auto simp: step_def split: if_splits option.splits)
qed (use assms that in \<open>auto simp: step_def split: if_splits\<close>)

lemma exec_append: "exec (es @ fs) s = (case exec es s of None \<Rightarrow> None | Some s' \<Rightarrow> exec fs s')"
  by (induction es arbitrary: s) (auto split: option.split)

lemma exec_reachable: "reachable s \<Longrightarrow> exec es s = Some s' \<Longrightarrow> reachable s'"
proof (induction es arbitrary: s)
  case Nil
  then show ?case by simp
next
  case (Cons e es)
  then show ?case by (auto split: option.splits intro: reachable.next_state)
qed

lemma playing_A_run:
  "exec [SetVoice idle_voice, Enqueue song_A, Enqueue song_B, Loop ok, Loop ok, Loop ok, Loop ok] fresh
     = Some playing_A"
  by (simp add: step_def loop_step_def have_track_def start_track_def record_bot_task_def
      enqueue_def add_track_def set_voice_def make_source_def play_def is_playing_def
      is_connected_def queue_size_def new_player_def fresh_def ok_def idle_voice_def
      playing_A_def source_A_def Let_def numeral_2_eq_2)

lemma playing_A_reachable: "reachable playing_A"
  using exec_reachable[OF _ playing_A_run] by (simp add: fresh_def reachable.init)

subsection \<open>pending and current\<close>

lemma fresh_ids_have_track:
  assumes "loop_task s = HaveTrack t" "fresh_ids s"
  shows "fresh_ids (have_track env t s)"
proof -
  let ?s1 = "record_bot_task (QueueWait (guild_id s) (queue_size s)) s"
  have a: "fresh_ids (?s1\<lparr>pending := t # pending ?s1, loop_task := Backoff 1\<rparr>)"
    using assms by (auto simp: fresh_ids_def)
  have b: "fresh_ids (start_track env t v ?s1)" for v
    using assms by (auto simp: fresh_ids_def start_track_fields)
  show ?thesis
    using a b by (simp add: have_track_def Let_def split: option.split)
qed

lemma fresh_ids_finish:
  assumes "fresh_ids s"
  shows "fresh_ids (finish env t src s)"
  using assms
  by (auto simp: finish_def Let_def fresh_ids_def propagate_def split: option.split)

lemma fresh_ids_loop:
  assumes "loop_step env s = Some s'" "fresh_ids s"
  shows "fresh_ids s'"
proof (cases "loop_task s")
  case (HaveTrack t)
  with assms(1) have "s' = have_track env t s" by (simp add: loop_step_def)
  with assms(2) fresh_ids_have_track[OF HaveTrack] show ?thesis by simp
next
  case (Finish t src)
  with assms(1) have "s' = finish env t src s" by (simp add: loop_step_def)
  with assms(2) fresh_ids_finish show ?thesis by simp
next
  case Dequeue
  show ?thesis
  proof (cases "pending s")
    case Nil
    with Dequeue assms(1) have "s' = s\<lparr>queue_event := False, loop_task := AwaitQueue\<rparr>"
      by (simp add: loop_step_def)
    with assms(2) show ?thesis by (simp add: fresh_ids_def)
  next
    case (Cons t ts)
    with Dequeue assms(1) have "s' = s\<lparr>pending := ts, loop_task := HaveTrack t\<rparr>"
      by (simp add: loop_step_def)
    with assms(2) Cons show ?thesis by (auto simp: fresh_ids_def)
  qed
next
  case Created
  with assms(1) have "s' = s\<lparr>loop_task := LoopTop\<rparr>" by (simp add: loop_step_def)
  with assms(2) show ?thesis by (simp add: fresh_ids_def)
next
  case LoopTop
  with assms(1) have "s' = s\<lparr>next_ev := False, loop_task := Dequeue\<rparr>" by (simp add: loop_step_def)
  with assms(2) show ?thesis by (simp add: fresh_ids_def)
next
  case AwaitQueue
  with assms(1) have "s' = s\<lparr>loop_task := Dequeue\<rparr>" by (simp add: loop_step_def split: if_splits)
  with assms(2) show ?thesis by (simp add: fresh_ids_def)
next
  case (Backoff d)
  with assms(1) have "s' = s\<lparr>loop_task := LoopTop\<rparr>" by (simp add: loop_step_def)
  with assms(2) show ?thesis by (simp add: fresh_ids_def)
next
  case (AwaitNext t src)
  with assms(1) have "s' = s\<lparr>loop_task := Finish t src\<rparr>" by (simp add: loop_step_def split: if_splits)
  with assms(2) show ?thesis by (simp add: fresh_ids_def)
next
  case Returned
  with assms(1) show ?thesis by (simp add: loop_step_def)
next
  case (Raised e)
  with assms(1) show ?thesis by (simp add: loop_step_def)
qed

lemma fresh_ids_step:
  assumes "step e s = Some s'" "fresh_ids s"
  shows "fresh_ids s'"
  using assms(1)
proof (cases rule: step_elim)
  case (Loop env)
  with assms(2) show ?thesis by (simp add: fresh_ids_loop)
next
  case (Enqueue tr)
  with assms(2) show ?thesis
    by (auto simp: fresh_ids_def enqueue_def add_track_def less_Suc_eq
        dest: suspended_not_HaveTrack)
next
  case Cancel
  with assms(2) show ?thesis by (auto simp: fresh_ids_def dest: cancel_task(1))
qed (use assms(2) in \<open>auto simp: fresh_ids_def clear_queue_def set_voice_def\<close>)

lemma fresh_ids_reachable: "reachable s \<Longrightarrow> fresh_ids s"
proof (induction rule: reachable.induct)
  case (init mon gid path)
  show ?case by (simp add: fresh_ids_def new_player_def)
next
  case (next_state s e s')
  then show ?case by (simp add: fresh_ids_step)
qed

text \<open>
  C7. In every state that a session can reach, by any interleaving of requests,
  \<^verbatim>\<open>skip_current\<close>, \<^verbatim>\<open>clear_queue\<close>, \<^verbatim>\<open>set_voice\<close>, cancellation, events of the voice client and
  steps of the coroutine, the object that \<open>current\<close> refers to is not in \<open>pending\<close>: no
  object of \<open>pending\<close> has its identity.
\<close>

theorem pending_excludes_current:
  assumes "reachable s" "current s = Some c"
  shows "fst c \<notin> fst ` set (pending s) \<and> c \<notin> set (pending s)"
  using fresh_ids_reachable[OF assms(1)] assms(2) by (auto simp: fresh_ids_def)

theorem pending_excludes_current_witness:
  "reachable playing_A \<and> current playing_A = Some (0, song_A)
   \<and> fst (0 :: nat, song_A) \<notin> fst ` set (pending playing_A)
   \<and> (0, song_A) \<notin> set (pending playing_A)"
  using pending_excludes_current[OF playing_A_reachable, of "(0, song_A)"] playing_A_reachable
  by (simp add: playing_A_def fresh_def new_player_def)

subsection \<open>skip_current\<close>

text \<open>
  C3. \<^verbatim>\<open>skip_current\<close> returns true exactly when a voice client is bound and plays. Then
  the client is stopped, the event \<^verbatim>\<open>next\<close> is set, and \<open>current\<close> and the coroutine are as
  before. Otherwise the state is unchanged. In both cases \<open>pending\<close> is unchanged.
\<close>

theorem skip_current_spec:
  "fst (skip_current s) = actively_streaming s
   \<and> (actively_streaming s \<longrightarrow>
        \<not> actively_streaming (snd (skip_current s)) \<and> next_ev (snd (skip_current s))
        \<and> trace (snd (skip_current s)) = trace s @ [Stopped]
        \<and> current (snd (skip_current s)) = current s
        \<and> loop_task (snd (skip_current s)) = loop_task s)
   \<and> (\<not> actively_streaming s \<longrightarrow> snd (skip_current s) = s)
   \<and> pending (snd (skip_current s)) = pending s"
  by (auto simp: skip_current_def actively_streaming_def is_playing_def stop_def split: option.splits)

theorem skip_current_spec_witness:
  "actively_streaming playing_A \<and> fst (skip_current playing_A)
   \<and> \<not> actively_streaming (snd (skip_current playing_A))
   \<and> next_ev (snd (skip_current playing_A))
   \<and> pending (snd (skip_current playing_A)) = [(1, song_B)]
   \<and> \<not> actively_streaming fresh \<and> skip_current fresh = (False, fresh)"
proof -
  have a: "actively_streaming playing_A"
    by (simp add: actively_streaming_def playing_A_def is_playing_def idle_voice_def)
  have b: "\<not> actively_streaming fresh"
    by (simp add: actively_streaming_def fresh_def new_player_def)
  have c: "pending playing_A = [(1, song_B)]" by (simp add: playing_A_def)
  from skip_current_spec[of playing_A] skip_current_spec[of fresh] a b c show ?thesis
    by (simp add: prod_eq_iff)
qed

text \<open>
  C10. While a track is current and the bound voice client is paused, \<^verbatim>\<open>skip_current\<close> returns
  false and changes nothing: the client is not stopped, \<^verbatim>\<open>next\<close> is not set, \<open>current\<close> and
  \<open>pending\<close> stay.
\<close>

theorem skip_current_paused:
  assumes "current s = Some t" "voice s = Some v" "is_paused v"
  shows "skip_current s = (False, s)"
  using assms by (simp add: skip_current_def is_paused_def is_playing_def)

theorem skip_current_paused_witness:
  "step (External VPause) playing_A
     = Some (playing_A\<lparr>voice := Some \<lparr>connected = True, player = Some source_A, paused = True\<rparr>\<rparr>)
   \<and> skip_current (playing_A\<lparr>voice := Some \<lparr>connected = True, player = Some source_A, paused = True\<rparr>\<rparr>)
     = (False, playing_A\<lparr>voice := Some \<lparr>connected = True, player = Some source_A, paused = True\<rparr>\<rparr>)"
proof -
  let ?v = "\<lparr>connected = True, player = Some source_A, paused = True\<rparr>"
  have "step (External VPause) playing_A = Some (playing_A\<lparr>voice := Some ?v\<rparr>)"
    by (simp add: step_def external_def pause_def playing_A_def idle_voice_def)
  moreover have "skip_current (playing_A\<lparr>voice := Some ?v\<rparr>) = (False, playing_A\<lparr>voice := Some ?v\<rparr>)"
    by (rule skip_current_paused[where t = "(0, song_A)" and v = ?v])
       (simp_all add: playing_A_def is_paused_def)
  ultimately show ?thesis by simp
qed

subsection \<open>Failures and cancellation\<close>

lemma make_source_record [simp]: "make_source (record_bot_task m s) t = make_source s t"
  by (simp add: make_source_def record_bot_task_def)

lemma make_source_current [simp]: "make_source (s\<lparr>current := c\<rparr>) t = make_source s t"
  by (simp add: make_source_def)

lemma over_step:
  assumes "step e s = Some s'" "over (loop_task s)"
  shows "loop_task s' = loop_task s \<and> started (trace s') = started (trace s)"
  using assms(1)
proof (cases rule: step_elim)
  case (Loop env)
  with assms(2) show ?thesis by (cases "loop_task s") (simp_all add: loop_step_def)
next
  case Cancel
  with assms(2) show ?thesis by (cases "loop_task s") (simp_all add: cancel_def)
qed (simp_all add: enqueue_def add_track_def clear_queue_def set_voice_def)

lemma over_exec:
  assumes "exec es s = Some s'" "over (loop_task s)"
  shows "loop_task s' = loop_task s \<and> started (trace s') = started (trace s)"
  using assms
proof (induction es arbitrary: s)
  case Nil
  then show ?case by simp
next
  case (Cons e es)
  from Cons.prems(1) obtain s1 where s1: "step e s = Some s1" "exec es s1 = Some s'"
    by (auto split: option.splits)
  from over_step[OF s1(1) Cons.prems(2)] Cons.IH[OF s1(2)] Cons.prems(2) show ?case by simp
qed

text \<open>
  C5, as amended. When starting a dequeued track raises (building the source or
  \<^verbatim>\<open>voice.play\<close>), the exception is not caught: it leaves \<^verbatim>\<open>player_loop\<close>, whose handler
  catches \<^verbatim>\<open>CancelledError\<close> only. The coroutine is over, \<open>current\<close> still refers to the
  track, \<open>pending\<close> is as it was, and no later step of the session starts another track.
\<close>

theorem start_failure_halts:
  assumes "loop_task s = HaveTrack t" "voice s = Some v" "is_connected v"
    and "start_failure env v (make_source s (snd t)) = Some e" "e \<noteq> CancelledError"
  shows "\<exists>s'. step (Loop env) s = Some s' \<and> loop_task s' = Raised e \<and> current s' = Some t
           \<and> pending s' = pending s \<and> started (trace s') = started (trace s)
           \<and> (\<forall>env'. step (Loop env') s' = None)
           \<and> (\<forall>es s''. exec es s' = Some s'' \<longrightarrow>
                 loop_task s'' = Raised e \<and> started (trace s'') = started (trace s))"
proof -
  let ?s' = "have_track env t s"
  have a: "step (Loop env) s = Some ?s'" using assms(1) by (simp add: step_def loop_step_def)
  have b: "loop_task ?s' = Raised e \<and> current ?s' = Some t \<and> pending ?s' = pending s
           \<and> started (trace ?s') = started (trace s)"
    using assms(2-5)
    by (auto simp: have_track_def start_track_def start_failure_def Let_def propagate_def
        split: option.splits sum.splits)
  then have c: "step (Loop env') ?s' = None" for env'
    by (simp add: step_def loop_step_def)
  have d: "loop_task s'' = Raised e \<and> started (trace s'') = started (trace s)"
    if "exec es ?s' = Some s''" for es s''
    using over_exec[OF that] b by simp
  from a b c d show ?thesis by blast
qed

theorem start_failure_counterexample:
  "exec [SetVoice idle_voice, Enqueue song_A, Enqueue song_B, Loop ok, Loop ok, Loop ok,
         Loop no_ffmpeg] fresh = Some crashed_A
   \<and> loop_task crashed_A = Raised ClientException
   \<and> pending crashed_A = [(1, song_B)]
   \<and> started (trace crashed_A) = []
   \<and> step (Loop ok) crashed_A = None"
  by (simp add: step_def loop_step_def have_track_def start_track_def record_bot_task_def
      enqueue_def add_track_def set_voice_def make_source_def play_def is_playing_def
      is_connected_def queue_size_def new_player_def fresh_def ok_def idle_voice_def
      crashed_A_def no_ffmpeg_def propagate_def Let_def numeral_2_eq_2)

text \<open>
  C6, as amended. Cancelling the task while the coroutine is suspended at one of its
  three \<^verbatim>\<open>await\<close>s ends the coroutine there: it returns (the cancellation does not leave
  it), it never runs again, and every field of the engine other than the task is as it
  was; the handler at line 151 does nothing.
\<close>

theorem cancel_terminates:
  assumes "loop_task s = AwaitQueue \<or> loop_task s = Backoff d \<or> loop_task s = AwaitNext t src"
  shows "step Cancel s = Some (s\<lparr>loop_task := Returned\<rparr>)
         \<and> (\<forall>env. step (Loop env) (s\<lparr>loop_task := Returned\<rparr>) = None)
         \<and> (\<forall>es s'. exec es (s\<lparr>loop_task := Returned\<rparr>) = Some s' \<longrightarrow> loop_task s' = Returned)"
proof -
  have a: "step Cancel s = Some (s\<lparr>loop_task := Returned\<rparr>)"
    using assms by (auto simp: step_def cancel_def propagate_def)
  have b: "step (Loop env) (s\<lparr>loop_task := Returned\<rparr>) = None" for env
    by (simp add: step_def loop_step_def)
  have c: "loop_task s' = Returned" if "exec es (s\<lparr>loop_task := Returned\<rparr>) = Some s'" for es s'
    using over_exec[OF that] by simp
  from a b c show ?thesis by blast
qed

theorem cancel_counterexample:
  "step Cancel playing_A = Some (playing_A\<lparr>loop_task := Returned\<rparr>)
   \<and> actively_streaming (playing_A\<lparr>loop_task := Returned\<rparr>)
   \<and> current (playing_A\<lparr>loop_task := Returned\<rparr>) = Some (0, song_A)
   \<and> trace (playing_A\<lparr>loop_task := Returned\<rparr>) = trace playing_A
   \<and> Cleanup source_A \<notin> set (trace (playing_A\<lparr>loop_task := Returned\<rparr>))
   \<and> Stopped \<notin> set (trace (playing_A\<lparr>loop_task := Returned\<rparr>))"
  by (simp add: step_def cancel_def propagate_def playing_A_def actively_streaming_def
      is_playing_def idle_voice_def)

theorem cancel_terminates_witness:
  "exec [Loop ok, Loop ok, Loop ok] fresh = Some (fresh\<lparr>loop_task := AwaitQueue\<rparr>)
   \<and> step Cancel (fresh\<lparr>loop_task := AwaitQueue\<rparr>) = Some (fresh\<lparr>loop_task := Returned\<rparr>)
   \<and> exec [Loop ok, Loop ok] waiting_A
       = Some (waiting_A\<lparr>loop_task := Backoff 1,
                 trace := [Enqueued (0, song_A), Recorded (QueueWait 42 0)]\<rparr>)
   \<and> step Cancel (waiting_A\<lparr>loop_task := Backoff 1,
                 trace := [Enqueued (0, song_A), Recorded (QueueWait 42 0)]\<rparr>)
       = Some (waiting_A\<lparr>loop_task := Returned,
                 trace := [Enqueued (0, song_A), Recorded (QueueWait 42 0)]\<rparr>)
   \<and> loop_task playing_A = AwaitNext (0, song_A) source_A
   \<and> step Cancel playing_A = Some (playing_A\<lparr>loop_task := Returned\<rparr>)
   \<and> step (Loop ok) (playing_A\<lparr>loop_task := Returned\<rparr>) = None"
proof -
  let ?q = "fresh\<lparr>loop_task := AwaitQueue\<rparr>"
  let ?b = "waiting_A\<lparr>loop_task := Backoff 1,
    trace := [Enqueued (0, song_A), Recorded (QueueWait 42 0)]\<rparr>"
  have r1: "exec [Loop ok, Loop ok, Loop ok] fresh = Some ?q"
    by (simp add: step_def loop_step_def fresh_def new_player_def)
  have r2: "exec [Loop ok, Loop ok] waiting_A = Some ?b"
    by (simp add: step_def loop_step_def have_track_def record_bot_task_def queue_size_def
        waiting_A_def fresh_def new_player_def Let_def)
  have a: "loop_task playing_A = AwaitNext (0, song_A) source_A" by (simp add: playing_A_def)
  have q: "loop_task ?q = AwaitQueue" and b: "loop_task ?b = Backoff 1" by simp_all
  have c1: "step Cancel playing_A = Some (playing_A\<lparr>loop_task := Returned\<rparr>)
      \<and> step (Loop ok) (playing_A\<lparr>loop_task := Returned\<rparr>) = None"
    using cancel_terminates[of playing_A 0 "(0, song_A)" source_A] a by blast
  have c2: "step Cancel ?q = Some (?q\<lparr>loop_task := Returned\<rparr>)"
    using cancel_terminates[of ?q 0 "(0, song_A)" source_A] q by blast
  have c3: "step Cancel ?b = Some (?b\<lparr>loop_task := Returned\<rparr>)"
    using cancel_terminates[of ?b 1 "(0, song_A)" source_A] b by blast
  from r1 r2 a c1 c2 c3 show ?thesis by simp
qed

theorem start_failure_halts_witness:
  "\<exists>s. exec [SetVoice idle_voice, Enqueue song_A, Enqueue song_B, Loop ok, Loop ok, Loop ok] fresh = Some s
     \<and> loop_task s = HaveTrack (0, song_A) \<and> voice s = Some idle_voice \<and> is_connected idle_voice
     \<and> start_failure no_ffmpeg idle_voice (make_source s song_A) = Some ClientException
     \<and> step (Loop no_ffmpeg) s = Some crashed_A
     \<and> step (Loop ok) crashed_A = None"
proof -
  let ?s = "fresh\<lparr>pending := [(1, song_B)], queue_event := True, voice := Some idle_voice,
     loop_task := HaveTrack (0, song_A), objects := 2,
     trace := [Enqueued (0, song_A), Enqueued (1, song_B)]\<rparr>"
  have run: "exec [SetVoice idle_voice, Enqueue song_A, Enqueue song_B, Loop ok, Loop ok, Loop ok] fresh = Some ?s"
    by (simp add: step_def loop_step_def enqueue_def add_track_def set_voice_def new_player_def
        fresh_def numeral_2_eq_2)
  have h: "loop_task ?s = HaveTrack (0, song_A)" "voice ?s = Some idle_voice" "is_connected idle_voice"
    "start_failure no_ffmpeg idle_voice (make_source ?s (snd (0::nat, song_A))) = Some ClientException"
    "ClientException \<noteq> CancelledError"
    by (simp_all add: is_connected_def idle_voice_def start_failure_def no_ffmpeg_def ok_def)
  have crash: "step (Loop no_ffmpeg) ?s = Some crashed_A"
    by (simp add: step_def loop_step_def have_track_def start_track_def record_bot_task_def
      is_connected_def queue_size_def new_player_def fresh_def ok_def idle_voice_def
      crashed_A_def no_ffmpeg_def propagate_def Let_def numeral_2_eq_2)
  from start_failure_halts[OF h] crash have "step (Loop ok) crashed_A = None" by auto
  with run h crash show ?thesis by simp
qed

subsection \<open>clear_queue and the cleanup after a track\<close>

text \<open>
  C4. \<^verbatim>\<open>clear_queue\<close> empties \<open>pending\<close> and changes no other field: putting the old
  \<open>pending\<close> back gives the old state. While a track plays and the coroutine waits for its
  end, \<^verbatim>\<open>clear_queue\<close> leaves the client playing, \<open>current\<close> set and the coroutine
  waiting; when the source then ends, the coroutine records the play, cleans the
  source up and clears \<open>current\<close>, and the client was never stopped.
\<close>

theorem clear_queue_frame:
  "pending (clear_queue s) = [] \<and> (clear_queue s)\<lparr>pending := pending s\<rparr> = s
   \<and> (loop_task s = AwaitNext a src \<and> current s = Some a \<and> actively_streaming s
        \<and> cleanup_exc env = None \<longrightarrow>
       step Clear s = Some (clear_queue s)
       \<and> actively_streaming (clear_queue s) \<and> current (clear_queue s) = Some a
       \<and> loop_task (clear_queue s) = AwaitNext a src
       \<and> (\<exists>s'. exec [External VEnded, Callback, Loop env, Loop env] (clear_queue s) = Some s'
             \<and> trace s' = trace (record_bot_task (TrackPlay (guild_id s) (title (snd a)) (duration (snd a))) s)
                           @ [Cleanup src]
             \<and> current s' = None \<and> loop_task s' = LoopTop \<and> pending s' = []))"
proof -
  have a: "pending (clear_queue s) = [] \<and> (clear_queue s)\<lparr>pending := pending s\<rparr> = s"
    by (simp add: clear_queue_def)
  have b: "step Clear s = Some (clear_queue s)
       \<and> actively_streaming (clear_queue s) \<and> current (clear_queue s) = Some a
       \<and> loop_task (clear_queue s) = AwaitNext a src"
    if "loop_task s = AwaitNext a src" "current s = Some a" "actively_streaming s"
    using that by (simp add: step_def clear_queue_def actively_streaming_def)
  have c: "\<exists>s'. exec [External VEnded, Callback, Loop env, Loop env] (clear_queue s) = Some s'
             \<and> trace s' = trace (record_bot_task (TrackPlay (guild_id s) (title (snd a)) (duration (snd a))) s)
                           @ [Cleanup src]
             \<and> current s' = None \<and> loop_task s' = LoopTop \<and> pending s' = []"
    if "loop_task s = AwaitNext a src" "current s = Some a" "actively_streaming s"
       "cleanup_exc env = None"
  proof -
    from that(3) obtain v where v: "voice s = Some v" "is_playing v"
      by (auto simp: actively_streaming_def split: option.splits)
    then have "ended v = 1" by (simp add: ended_def is_playing_def)
    with v that(1,4) show ?thesis
      by (simp add: step_def loop_step_def clear_queue_def external_def finish_def
          record_bot_task_def Let_def)
  qed
  from a b c show ?thesis by blast
qed

theorem clear_queue_frame_witness:
  "loop_task playing_A = AwaitNext (0, song_A) source_A \<and> current playing_A = Some (0, song_A)
   \<and> actively_streaming playing_A \<and> cleanup_exc ok = None
   \<and> pending playing_A = [(1, song_B)] \<and> pending (clear_queue playing_A) = []
   \<and> actively_streaming (clear_queue playing_A)
   \<and> (\<exists>s'. exec [External VEnded, Callback, Loop ok, Loop ok] (clear_queue playing_A) = Some s'
         \<and> current s' = None \<and> loop_task s' = LoopTop)"
proof -
  have h: "loop_task playing_A = AwaitNext (0, song_A) source_A" "current playing_A = Some (0, song_A)"
    "actively_streaming playing_A" "cleanup_exc ok = None" "pending playing_A = [(1, song_B)]"
    by (simp_all add: playing_A_def actively_streaming_def is_playing_def idle_voice_def ok_def)
  with clear_queue_frame[of playing_A "(0, song_A)" source_A ok] show ?thesis by auto
qed

text \<open>
  C8. When \<^verbatim>\<open>source.cleanup\<close> raises \<^verbatim>\<open>ValueError\<close> or \<^verbatim>\<open>OSError\<close> after a track has ended
  (the process behind the source is gone already), the exception is swallowed: the
  coroutine clears \<open>current\<close>, is back at the top of its loop with \<open>pending\<close> and the
  voice client untouched, and its next step goes on.
\<close>

theorem cleanup_failure_swallowed:
  assumes "loop_task s = Finish t src" "cleanup_exc env = Some e" "e = ValueError \<or> e = OSError"
  shows "\<exists>s'. step (Loop env) s = Some s' \<and> current s' = None \<and> loop_task s' = LoopTop
           \<and> pending s' = pending s \<and> voice s' = voice s \<and> last (trace s') = Cleanup src
           \<and> started (trace s') = started (trace s)
           \<and> step (Loop env') s' = Some (s'\<lparr>next_ev := False, loop_task := Dequeue\<rparr>)"
  using assms
  by (auto simp: step_def loop_step_def finish_def record_bot_task_def Let_def)

theorem cleanup_failure_swallowed_witness:
  "exec [Skip, Loop ok] playing_A = Some finishing_A
   \<and> loop_task finishing_A = Finish (0, song_A) source_A
   \<and> cleanup_exc already_released = Some ValueError
   \<and> (\<exists>s'. step (Loop already_released) finishing_A = Some s' \<and> current s' = None
         \<and> loop_task s' = LoopTop \<and> pending s' = [(1, song_B)])"
proof -
  have run: "exec [Skip, Loop ok] playing_A = Some finishing_A"
    by (simp add: step_def loop_step_def skip_current_def is_playing_def stop_def ended_def
        playing_A_def finishing_A_def idle_voice_def fresh_def new_player_def)
  have h: "loop_task finishing_A = Finish (0, song_A) source_A"
    "cleanup_exc already_released = Some ValueError" "ValueError = ValueError \<or> ValueError = OSError"
    by (simp_all add: finishing_A_def already_released_def)
  have p: "pending finishing_A = [(1, song_B)]" by (simp add: finishing_A_def playing_A_def)
  from cleanup_failure_swallowed[OF h, of ok] run h p show ?thesis by auto
qed

subsection \<open>The session registry\<close>

lemma registry_ok_get_player:
  assumes "registry_ok c"
  shows "registry_ok (snd (get_player g c))"
proof (cases "players c g")
  case None
  with assms show ?thesis
    by (auto simp: get_player_def registry_ok_def Let_def nth_append new_player_def
        intro: less_SucI)
next
  case (Some r)
  with assms show ?thesis by (simp add: get_player_def)
qed

text \<open>
  C9. \<^verbatim>\<open>get_player\<close> is idempotent: a second call for the same session returns the same
  instance and leaves the cog as the first call left it, and so does any later call
  while the dictionary is the same. The instance is constructed at the first call for
  the session, and only then; the entries of other sessions are untouched, and every
  entry refers to the instance made for its session.
\<close>

theorem get_player_idempotent:
  "get_player g (snd (get_player g c)) = get_player g c
   \<and> players (snd (get_player g c)) g = Some (fst (get_player g c))
   \<and> (players c g = None \<longrightarrow>
        fst (get_player g c) = length (instances c)
        \<and> instances (snd (get_player g c))
            = instances c @ [new_player (health_monitor c) g (config_ffmpeg_path c)]
        \<and> (\<forall>g'. g' \<noteq> g \<longrightarrow> players (snd (get_player g c)) g' = players c g'))
   \<and> (\<forall>r. players c g = Some r \<longrightarrow> get_player g c = (r, c))
   \<and> (\<forall>c'. players c' = players (snd (get_player g c)) \<longrightarrow>
         fst (get_player g c') = fst (get_player g c) \<and> snd (get_player g c') = c')
   \<and> (registry_ok c \<longrightarrow> registry_ok (snd (get_player g c)))"
proof -
  have "registry_ok c \<longrightarrow> registry_ok (snd (get_player g c))"
    by (simp add: registry_ok_get_player)
  moreover have "get_player g (snd (get_player g c)) = get_player g c
   \<and> players (snd (get_player g c)) g = Some (fst (get_player g c))
   \<and> (players c g = None \<longrightarrow>
        fst (get_player g c) = length (instances c)
        \<and> instances (snd (get_player g c))
            = instances c @ [new_player (health_monitor c) g (config_ffmpeg_path c)]
        \<and> (\<forall>g'. g' \<noteq> g \<longrightarrow> players (snd (get_player g c)) g' = players c g'))
   \<and> (\<forall>r. players c g = Some r \<longrightarrow> get_player g c = (r, c))"
    by (cases "players c g") (simp_all add: get_player_def Let_def)
  moreover have "fst (get_player g c') = fst (get_player g c) \<and> snd (get_player g c') = c'"
    if "players c' = players (snd (get_player g c))" for c'
    using that by (cases "players c g") (simp_all add: get_player_def Let_def)
  ultimately show ?thesis by blast
qed

theorem get_player_idempotent_witness:
  "players empty_cog 42 = None \<and> registry_ok empty_cog
   \<and> fst (get_player 42 empty_cog) = 0
   \<and> instances (snd (get_player 42 empty_cog)) = [fresh]
   \<and> get_player 42 (snd (get_player 42 empty_cog)) = get_player 42 empty_cog
   \<and> fst (get_player 7 (snd (get_player 42 empty_cog))) = 1
   \<and> registry_ok (snd (get_player 42 empty_cog))"
proof -
  have h: "players empty_cog 42 = None" "registry_ok empty_cog"
    by (simp_all add: empty_cog_def registry_ok_def)
  have i: "instances empty_cog = []" "health_monitor empty_cog" "config_ffmpeg_path empty_cog = ''ffmpeg''"
    by (simp_all add: empty_cog_def)
  have o: "fst (get_player 7 (snd (get_player 42 empty_cog))) = 1"
    by (simp add: get_player_def empty_cog_def Let_def)
  from get_player_idempotent[of 42 empty_cog] h i o show ?thesis
    by (simp add: fresh_def)
qed

subsection \<open>Order of playback\<close>








lemma started_urls_append [simp]: "started_urls (xs @ ys) = started_urls xs @ started_urls ys"
  by (induction xs rule: started_urls.induct) auto















subsection \<open>No transport\<close>

lemma no_transport_loop:
  assumes "loop_step env s = Some s'" "no_transport s"
  shows "no_transport s' \<and> started (trace s') = started (trace s)"
proof (cases "loop_task s")
  case (HaveTrack t)
  with assms(1) have s': "s' = have_track env t s" by (simp add: loop_step_def)
  show ?thesis unfolding s' using assms(2)
    by (auto simp: have_track_def no_transport_def Let_def split: option.splits)
next
  case (Finish t src)
  with assms(1) have s': "s' = finish env t src s" by (simp add: loop_step_def)
  show ?thesis unfolding s' using assms(2)
    by (auto simp: finish_def no_transport_def Let_def split: option.splits)
next
  case Dequeue
  with assms show ?thesis
    by (cases "pending s") (auto simp: loop_step_def no_transport_def)
qed (use assms in \<open>auto simp: loop_step_def no_transport_def split: if_splits\<close>)

lemma no_transport_external:
  assumes "voice s = Some v" "no_transport s" "op \<noteq> VConnect"
  shows "no_transport (external op v s)"
  using assms
  by (cases op)
     (simp_all add: external_def no_transport_def is_connected_def stop_def pause_def
        resume_def disconnect_def)

lemma no_transport_step:
  assumes "step e s = Some s'" "no_transport s" "\<not> binds e"
  shows "no_transport s' \<and> started (trace s') = started (trace s)"
  using assms(1)
proof (cases rule: step_elim)
  case (Loop env)
  with assms(2) show ?thesis by (simp add: no_transport_loop)
next
  case (External op v)
  with assms(3) have "op \<noteq> VConnect" by auto
  from no_transport_external[OF External(2) assms(2) this] External(3) show ?thesis by simp
next
  case (NoVoice op)
  with assms(2) show ?thesis by simp
next
  case (Enqueue tr)
  with assms(2) show ?thesis by (simp add: enqueue_def add_track_def no_transport_def)
next
  case Skip
  with assms(2) show ?thesis
    by (auto simp: skip_current_def no_transport_def is_connected_def stop_def split: option.splits)
next
  case Clear
  with assms(2) show ?thesis by (simp add: clear_queue_def no_transport_def)
next
  case (SetVoice v)
  with assms(3) show ?thesis by simp
next
  case Cancel
  with assms(2) show ?thesis by (simp add: no_transport_def)
next
  case Callback
  with assms(2) show ?thesis by (simp add: no_transport_def)
qed

lemma no_transport_exec:
  assumes "exec es s = Some s'" "no_transport s" "\<forall>e \<in> set es. \<not> binds e"
  shows "no_transport s' \<and> started (trace s') = started (trace s)"
  using assms
proof (induction es arbitrary: s)
  case Nil
  then show ?case by simp
next
  case (Cons e es)
  from Cons.prems(1) obtain s1 where s1: "step e s = Some s1" "exec es s1 = Some s'"
    by (auto split: option.splits)
  from no_transport_step[OF s1(1) Cons.prems(2)] Cons.prems(3)
  have a: "no_transport s1" "started (trace s1) = started (trace s)" by auto
  from Cons.IH[OF s1(2) a(1)] Cons.prems(3) a(2) show ?case by simp
qed

text \<open>
  C2. When the coroutine dequeues a track while no voice client is bound or the bound one
  is not connected, the track goes back to the head of \<open>pending\<close>, which is then as
  before, and the coroutine sleeps for one second; nothing has been started. Nothing is
  started by any later events either, as long as none of them binds a connected client.
  Once \<^verbatim>\<open>set_voice\<close> binds a connected client that is not playing, and the start does not
  fail, the coroutine wakes, dequeues the same track and starts it: it is \<open>current\<close>, the
  client plays, and the queue is one shorter.
\<close>

theorem hold_without_transport:
  assumes "loop_task s = Dequeue" "pending s = t # ts" "no_transport s"
  shows "\<exists>s1. exec [Loop env, Loop env'] s = Some s1
           \<and> pending s1 = t # ts \<and> loop_task s1 = Backoff 1
           \<and> current s1 = current s \<and> voice s1 = voice s
           \<and> started (trace s1) = started (trace s)
           \<and> (\<forall>es s2. (\<forall>e \<in> set es. \<not> binds e) \<and> exec es s1 = Some s2 \<longrightarrow>
                 started (trace s2) = started (trace s) \<and> no_transport s2)
           \<and> (\<forall>v e0 e1 e2 e3.
                 is_connected v \<and> \<not> is_playing v \<and> source_exc e3 = None \<and> play_exc e3 = None \<longrightarrow>
                 (\<exists>s3. exec [SetVoice v, Loop e0, Loop e1, Loop e2, Loop e3] s1 = Some s3
                    \<and> current s3 = Some t \<and> pending s3 = ts
                    \<and> queue_size s3 + 1 = queue_size s1
                    \<and> started (trace s3) = started (trace s) @ [t]
                    \<and> actively_streaming s3))"
proof -
  let ?s1 = "(record_bot_task (QueueWait (guild_id s) (length ts)) s)\<lparr>loop_task := Backoff 1\<rparr>"
  have run: "exec [Loop env, Loop env'] s = Some ?s1"
    using assms
    by (auto simp: step_def loop_step_def have_track_def no_transport_def queue_size_def
        record_bot_task_def Let_def split: option.splits)
  have f: "pending ?s1 = t # ts" "loop_task ?s1 = Backoff 1" "current ?s1 = current s"
    "voice ?s1 = voice s" "started (trace ?s1) = started (trace s)"
    using assms(2) by simp_all
  have nt: "no_transport ?s1" using assms(3) by (simp add: no_transport_def)
  have hold: "started (trace s2) = started (trace s) \<and> no_transport s2"
    if "\<forall>e \<in> set es. \<not> binds e" "exec es ?s1 = Some s2" for es s2
    using no_transport_exec[OF that(2) nt that(1)] f(5) by simp
  have bound: "\<exists>s3. exec [SetVoice v, Loop e0, Loop e1, Loop e2, Loop e3] ?s1 = Some s3
                    \<and> current s3 = Some t \<and> pending s3 = ts
                    \<and> queue_size s3 + 1 = queue_size ?s1
                    \<and> started (trace s3) = started (trace s) @ [t]
                    \<and> actively_streaming s3"
    if "is_connected v" "\<not> is_playing v" "source_exc e3 = None" "play_exc e3 = None"
    for v e0 e1 e2 e3
    using that assms(2)
    by (auto simp: step_def loop_step_def have_track_def start_track_def set_voice_def
        play_def queue_size_def actively_streaming_def is_playing_def Let_def
        record_bot_task_def)
  from run f hold bound show ?thesis by blast
qed

theorem hold_without_transport_witness:
  "loop_task waiting_A = Dequeue \<and> pending waiting_A = [(0, song_A)] \<and> no_transport waiting_A
   \<and> (\<exists>s1. exec [Loop ok, Loop ok] waiting_A = Some s1
         \<and> pending s1 = [(0, song_A)] \<and> loop_task s1 = Backoff 1 \<and> started (trace s1) = []
         \<and> (\<exists>s2. exec [Loop ok, Loop ok, Loop ok, Loop ok, Enqueue song_B, Loop ok] s1 = Some s2
               \<and> started (trace s2) = [] \<and> no_transport s2)
         \<and> (\<exists>s3. exec [SetVoice idle_voice, Loop ok, Loop ok, Loop ok, Loop ok] s1 = Some s3
               \<and> current s3 = Some (0, song_A) \<and> pending s3 = []
               \<and> started (trace s3) = [(0, song_A)] \<and> actively_streaming s3))"
proof -
  have h: "loop_task waiting_A = Dequeue" "pending waiting_A = [(0, song_A)]" "no_transport waiting_A"
    "started (trace waiting_A) = []"
    by (simp_all add: waiting_A_def fresh_def new_player_def no_transport_def)
  have v: "is_connected idle_voice \<and> \<not> is_playing idle_voice \<and> source_exc ok = None \<and> play_exc ok = None"
    by (simp add: idle_voice_def ok_def is_connected_def is_playing_def)
  from hold_without_transport[OF h(1-3), of ok ok] obtain s1 where s1:
    "exec [Loop ok, Loop ok] waiting_A = Some s1" "pending s1 = [(0, song_A)]"
    "loop_task s1 = Backoff 1" "started (trace s1) = started (trace waiting_A)"
    "\<forall>es s2. (\<forall>e \<in> set es. \<not> binds e) \<and> exec es s1 = Some s2 \<longrightarrow>
         started (trace s2) = started (trace waiting_A) \<and> no_transport s2"
    "\<forall>v e0 e1 e2 e3.
         is_connected v \<and> \<not> is_playing v \<and> source_exc e3 = None \<and> play_exc e3 = None \<longrightarrow>
         (\<exists>s3. exec [SetVoice v, Loop e0, Loop e1, Loop e2, Loop e3] s1 = Some s3
            \<and> current s3 = Some (0, song_A) \<and> pending s3 = []
            \<and> queue_size s3 + 1 = queue_size s1
            \<and> started (trace s3) = started (trace waiting_A) @ [(0, song_A)]
            \<and> actively_streaming s3)"
    by blast
  have s1_eq: "s1 = waiting_A\<lparr>pending := [(0, song_A)], loop_task := Backoff 1,
      trace := [Enqueued (0, song_A), Recorded (QueueWait 42 0)]\<rparr>"
    using s1(1)
    by (simp add: step_def loop_step_def have_track_def record_bot_task_def queue_size_def
        waiting_A_def fresh_def new_player_def Let_def)
  have "\<exists>s2. exec [Loop ok, Loop ok, Loop ok, Loop ok, Enqueue song_B, Loop ok] s1 = Some s2"
    unfolding s1_eq
    by (simp add: step_def loop_step_def have_track_def record_bot_task_def queue_size_def
        enqueue_def add_track_def waiting_A_def fresh_def new_player_def Let_def)
  then obtain s2 where s2: "exec [Loop ok, Loop ok, Loop ok, Loop ok, Enqueue song_B, Loop ok] s1 = Some s2"
    by blast
  have "\<forall>e \<in> set [Loop ok, Loop ok, Loop ok, Loop ok, Enqueue song_B, Loop ok]. \<not> binds e"
    by simp
  with s1(5) s2 have a: "started (trace s2) = [] \<and> no_transport s2" using h(4) by metis
  from s1(6) v obtain s3 where s3:
    "exec [SetVoice idle_voice, Loop ok, Loop ok, Loop ok, Loop ok] s1 = Some s3"
    "current s3 = Some (0, song_A)" "pending s3 = []"
    "started (trace s3) = started (trace waiting_A) @ [(0, song_A)]" "actively_streaming s3"
    by blast
  from h s1(1-4) s2 a s3 show ?thesis by auto
qed

subsection \<open>Further observations\<close>

text \<open>
  The invariant on \<open>pending\<close> and \<open>current\<close> is about object identity. A second request for
  the same song gives a second object with the same fields, which the generated
  \<^verbatim>\<open>__eq__\<close> of the dataclass takes for equal to the playing one.
\<close>

lemma equal_fields_while_current:
  "\<exists>s. reachable s \<and> current s = Some (0, song_A) \<and> pending s = [(1, song_A)]"
proof -
  have "\<exists>s. exec [SetVoice idle_voice, Enqueue song_A, Enqueue song_A, Loop ok, Loop ok, Loop ok,
          Loop ok] fresh = Some s \<and> current s = Some (0, song_A) \<and> pending s = [(1, song_A)]"
    by (simp add: step_def loop_step_def have_track_def start_track_def record_bot_task_def
      enqueue_def add_track_def set_voice_def make_source_def play_def is_playing_def
      is_connected_def queue_size_def new_player_def fresh_def ok_def idle_voice_def Let_def)
  then obtain s where "exec [SetVoice idle_voice, Enqueue song_A, Enqueue song_A, Loop ok, Loop ok,
      Loop ok, Loop ok] fresh = Some s" "current s = Some (0, song_A)" "pending s = [(1, song_A)]"
    by blast
  moreover have "reachable fresh" by (simp add: fresh_def reachable.init)
  ultimately show ?thesis using exec_reachable by blast
qed

text \<open>
  A start failure needs no fault of the surroundings. \<^verbatim>\<open>skip_current\<close> sets \<^verbatim>\<open>next\<close> itself
  (line 74), and the stopped player's \<^verbatim>\<open>after_play\<close> schedules a second \<^verbatim>\<open>next.set\<close>
  (line 128). When the second one runs after the following track has started, the
  coroutine takes it for the end of that track; the client still plays it when the
  track after it is started, \<^verbatim>\<open>voice.play\<close> raises, and the coroutine is over.
\<close>

lemma skip_then_late_callback:
  "\<exists>s. exec [SetVoice idle_voice, Enqueue song_A, Enqueue song_B, Enqueue song_C,
            Loop ok, Loop ok, Loop ok, Loop ok, Skip,
            Loop ok, Loop ok, Loop ok, Loop ok, Loop ok, Callback,
            Loop ok, Loop ok, Loop ok, Loop ok, Loop ok] fresh = Some s
     \<and> loop_task s = Raised ClientException
     \<and> started (trace s) = [(0, song_A), (1, song_B)]
     \<and> current s = Some (2, song_C) \<and> pending s = []"
  by (simp add: step_def loop_step_def have_track_def start_track_def finish_def
      record_bot_task_def enqueue_def add_track_def set_voice_def make_source_def
      skip_current_def play_def is_playing_def is_connected_def queue_size_def new_player_def
      fresh_def ok_def idle_voice_def stop_def ended_def propagate_def Let_def)

end
